theory Spec2Isabelle
  imports Main "HOL-Library.Sublist" "HOL-Library.List_Lexorder" "HOL-Library.AList"
    "HOL-Library.Code_Target_Nat"
begin

section \<open>Strings, bytes and paths\<close>

text \<open>
  A Python \<open>str\<close> is a sequence of Unicode code points and a \<open>bytes\<close> object a sequence of
  octets; both are lists of naturals here.  An absolute POSIX path (a \<open>pathlib.Path\<close>) is the
  list of its components below the root \<open>/\<close>, so \<open>/data/a\<close> is \<open>[data, a]\<close> and \<open>/\<close> is \<open>[]\<close>.
\<close>

type_synonym ustr = "nat list"
type_synonym bytes = "nat list"
type_synonym path = "ustr list"

definition str :: "string \<Rightarrow> ustr" where
  "str s = map of_char s"

definition SLASH :: nat where "SLASH = 47"
definition PERCENT :: nat where "PERCENT = 37"
definition DOT :: ustr where "DOT = [46]"
definition DOTDOT :: ustr where "DOTDOT = [46, 46]"
definition REPLACEMENT :: nat where "REPLACEMENT = 65533"

subsection \<open>UTF-8\<close>

text \<open>
  The decoder is a byte-at-a-time automaton.  \<open>Need k acc lo hi\<close>: \<open>k\<close> continuation bytes are
  still expected, \<open>acc\<close> holds the bits read so far and the next byte must lie in \<open>lo..hi\<close>
  (the second byte of a sequence has a narrower range after \<open>E0\<close>, \<open>ED\<close>, \<open>F0\<close> and \<open>F4\<close>, which
  excludes overlong forms, surrogates and code points above \<open>10FFFF\<close>).
\<close>

datatype ustate = Start | Need nat nat nat nat

definition start_byte :: "nat \<Rightarrow> (nat option \<times> ustate) option" where
  "start_byte b =
     (if b < 128 then Some (Some b, Start)
      else if b < 194 then None
      else if b < 224 then Some (None, Need 1 (b - 192) 128 191)
      else if b = 224 then Some (None, Need 2 0 160 191)
      else if b = 237 then Some (None, Need 2 13 128 159)
      else if b < 240 then Some (None, Need 2 (b - 224) 128 191)
      else if b = 240 then Some (None, Need 3 0 144 191)
      else if b < 244 then Some (None, Need 3 (b - 240) 128 191)
      else if b = 244 then Some (None, Need 3 4 128 143)
      else None)"

text \<open>\<open>bytes.decode('utf-8')\<close> with \<open>errors='strict'\<close>: \<open>None\<close> is \<open>UnicodeDecodeError\<close>.\<close>

fun utf8_decode_from :: "ustate \<Rightarrow> bytes \<Rightarrow> ustr option" where
  "utf8_decode_from st [] = (if st = Start then Some [] else None)"
| "utf8_decode_from Start (b # bs) =
     (case start_byte b of
        None \<Rightarrow> None
      | Some (None, st') \<Rightarrow> utf8_decode_from st' bs
      | Some (Some c, st') \<Rightarrow> map_option (Cons c) (utf8_decode_from st' bs))"
| "utf8_decode_from (Need k acc lo hi) (b # bs) =
     (if lo \<le> b \<and> b \<le> hi then
        (if k = 1 then map_option (Cons (acc * 64 + (b - 128))) (utf8_decode_from Start bs)
         else utf8_decode_from (Need (k - 1) (acc * 64 + (b - 128)) 128 191) bs)
      else None)"

definition utf8_decode :: "bytes \<Rightarrow> ustr option" where
  "utf8_decode bs = utf8_decode_from Start bs"

text \<open>
  \<open>bytes.decode('utf-8', 'replace')\<close>: every maximal ill-formed prefix of a sequence becomes
  one U+FFFD and decoding resumes at the offending byte.
\<close>

definition restart :: "nat \<Rightarrow> ustr \<times> ustate" where
  "restart b =
     (case start_byte b of
        None \<Rightarrow> ([REPLACEMENT], Start)
      | Some (None, st') \<Rightarrow> ([], st')
      | Some (Some c, st') \<Rightarrow> ([c], st'))"

fun utf8_replace_from :: "ustate \<Rightarrow> bytes \<Rightarrow> ustr" where
  "utf8_replace_from st [] = (if st = Start then [] else [REPLACEMENT])"
| "utf8_replace_from Start (b # bs) =
     (case restart b of (out, st') \<Rightarrow> out @ utf8_replace_from st' bs)"
| "utf8_replace_from (Need k acc lo hi) (b # bs) =
     (if lo \<le> b \<and> b \<le> hi then
        (if k = 1 then (acc * 64 + (b - 128)) # utf8_replace_from Start bs
         else utf8_replace_from (Need (k - 1) (acc * 64 + (b - 128)) 128 191) bs)
      else REPLACEMENT # (case restart b of (out, st') \<Rightarrow> out @ utf8_replace_from st' bs))"

definition utf8_replace :: "bytes \<Rightarrow> ustr" where
  "utf8_replace bs = utf8_replace_from Start bs"



subsection \<open>\<open>urllib.parse.unquote\<close>\<close>

definition hexval :: "nat \<Rightarrow> nat option" where
  "hexval c =
     (if 48 \<le> c \<and> c \<le> 57 then Some (c - 48)
      else if 65 \<le> c \<and> c \<le> 70 then Some (c - 55)
      else if 97 \<le> c \<and> c \<le> 102 then Some (c - 87)
      else None)"

text \<open>
  \<open>unquote_to_bytes\<close>: a percent sign followed by two hexadecimal digits is one byte; any
  other percent sign stands for itself.
\<close>

fun unquote_to_bytes :: "ustr \<Rightarrow> bytes" where
  "unquote_to_bytes (p # a # b # rest) =
     (if p = PERCENT then
        (case (hexval a, hexval b) of
           (Some x, Some y) \<Rightarrow> (16 * x + y) # unquote_to_bytes rest
         | _ \<Rightarrow> p # unquote_to_bytes (a # b # rest))
      else p # unquote_to_bytes (a # b # rest))"
| "unquote_to_bytes cs = cs"

text \<open>
  \<open>unquote\<close> splits the string into maximal runs of ASCII characters; each run is
  percent-decoded and then decoded as UTF-8 with replacement, and the characters between
  the runs are kept.  \<open>run\<close> is the ASCII run read so far.
\<close>

fun unquote_parts :: "ustr \<Rightarrow> ustr \<Rightarrow> ustr" where
  "unquote_parts run [] = utf8_replace (unquote_to_bytes run)"
| "unquote_parts run (c # cs) =
     (if c < 128 then unquote_parts (run @ [c]) cs
      else utf8_replace (unquote_to_bytes run) @ c # unquote_parts [] cs)"

definition unquote :: "ustr \<Rightarrow> ustr" where
  "unquote s = (if PERCENT \<notin> set s then s else unquote_parts [] s)"



subsection \<open>\<open>str.lstrip\<close>, \<open>str.split\<close> and \<open>pathlib\<close> joins\<close>

definition lstrip :: "nat \<Rightarrow> ustr \<Rightarrow> ustr" where
  "lstrip c s = dropWhile (\<lambda>x. x = c) s"

fun split_on :: "nat \<Rightarrow> ustr \<Rightarrow> ustr list" where
  "split_on s [] = [[]]"
| "split_on s (c # cs) =
     (if c = s then [] # split_on s cs
      else (case split_on s cs of [] \<Rightarrow> [[c]] | x # xs \<Rightarrow> (c # x) # xs))"

text \<open>
  \<open>base / rel\<close> for a relative \<open>rel\<close>: \<open>pathlib\<close> splits at the separator and drops empty and
  \<open>.\<close> components; \<open>..\<close> stays.
\<close>

definition parse_parts :: "ustr \<Rightarrow> path" where
  "parse_parts rel = filter (\<lambda>x. x \<noteq> [] \<and> x \<noteq> DOT) (split_on SLASH rel)"

definition joinpath :: "path \<Rightarrow> ustr \<Rightarrow> path" where
  "joinpath p rel = (if rel \<noteq> [] \<and> hd rel = SLASH then parse_parts rel else p @ parse_parts rel)"

text \<open>\<open>str(path)\<close> of an absolute path and of a relative one.\<close>

fun join_with :: "nat \<Rightarrow> ustr list \<Rightarrow> ustr" where
  "join_with s [] = []"
| "join_with s [x] = x"
| "join_with s (x # y # ys) = x @ s # join_with s (y # ys)"

definition path_str :: "path \<Rightarrow> ustr" where
  "path_str p = SLASH # join_with SLASH p"


section \<open>Exceptions and the operating system\<close>

datatype errno = ENOENT | ENOTDIR | EBADF | ELOOP | EACCES | EISDIR | EEXIST | EIO | EBUSY
  | ENOTEMPTY | EINVAL

datatype exn = OSError errno | ValueError | LookupError | UnicodeEncodeError | UnicodeDecodeError
  | RecursionError | SameFileError | ShutilError "exn list"

text \<open>\<open>shutil.Error\<close> and \<open>SameFileError\<close> are subclasses of \<open>OSError\<close>.\<close>

fun is_OSError :: "exn \<Rightarrow> bool" where
  "is_OSError (OSError e) = True"
| "is_OSError SameFileError = True"
| "is_OSError (ShutilError es) = True"
| "is_OSError _ = False"

text \<open>
  The \<open>detail\<close> of an \<open>HTTPException\<close> is a fixed text, possibly followed by the request's
  path, or a text followed by \<open>str(e)\<close> of the exception caught.
\<close>

datatype detail = Text ustr | Caught ustr exn

datatype http_error = HTTPException nat detail

record stat_result =
  st_mode :: nat
  st_size :: nat
  st_mtime :: nat

text \<open>
  What a request observes of the file system: the results of \<open>Path.resolve\<close>, \<open>os.stat\<close>,
  \<open>os.listdir\<close> and of reading a file's bytes.
\<close>

record posix =
  os_realpath :: "path \<Rightarrow> exn + path"
  os_stat :: "path \<Rightarrow> exn + stat_result"
  os_listdir :: "path \<Rightarrow> exn + ustr list"
  os_read :: "path \<Rightarrow> exn + bytes"

section \<open>The path resolver\<close>

text \<open>
  \<open>safe_path\<close> of \<open>main.py\<close>.  \<open>BASE_DIR\<close> is the configured root, as the components of an
  absolute path.  The argument is \<open>None\<close> for a missing path.  Whatever \<open>resolve\<close> raises on
  the joined path is caught and the joined path itself is checked; \<open>relative_to\<close> compares
  components.  Any other exception (only \<open>resolve\<close> of the root can raise here) becomes
  status 500.
\<close>

definition safe_path :: "posix \<Rightarrow> path \<Rightarrow> ustr option \<Rightarrow> http_error + path" where
  "safe_path os BASE_DIR arg =
     (let path = (case arg of None \<Rightarrow> [] | Some s \<Rightarrow> s);
          path = unquote path;
          path = lstrip SLASH path
      in case os_realpath os BASE_DIR of
           Inl e \<Rightarrow> Inl (HTTPException 500 (Caught (str ''Path processing error: '') e))
         | Inr base_path \<Rightarrow>
             (let full_path = joinpath base_path path;
                  resolved_path = (case os_realpath os full_path of
                                     Inl e \<Rightarrow> full_path
                                   | Inr r \<Rightarrow> r)
              in if prefix base_path resolved_path then Inr resolved_path
                 else Inl (HTTPException 400 (Text (str ''Invalid path: outside base directory'')))))"



section \<open>A file system without symbolic links\<close>

text \<open>
  The state the mutating requests act on: regular files and directories, keyed by absolute
  path.  A node carries its permission bits, its modification time and, for a file, its
  bytes.  \<open>clock\<close> is the time of the request and \<open>umask\<close> the process's file-creation mask.
  There are no symbolic links, devices or access-control failures in this state; requests
  that only read are stated over any \<^typ>\<open>posix\<close>.
\<close>

datatype node = File nat nat bytes | Dir nat nat

record fsys =
  entries :: "(path \<times> node) list"
  clock :: nat
  umask :: nat

definition lookup :: "fsys \<Rightarrow> path \<Rightarrow> node option" where
  "lookup fs p = map_of (entries fs) p"

fun is_file_node :: "node option \<Rightarrow> bool" where
  "is_file_node (Some (File m t c)) = True"
| "is_file_node _ = False"

fun is_dir_node :: "node option \<Rightarrow> bool" where
  "is_dir_node (Some (Dir m t)) = True"
| "is_dir_node _ = False"

definition S_IFDIR :: nat where "S_IFDIR = 16384"
definition S_IFREG :: nat where "S_IFREG = 32768"

definition S_ISDIR :: "nat \<Rightarrow> bool" where
  "S_ISDIR m \<longleftrightarrow> (m div 4096) mod 16 = 4"

definition S_ISREG :: "nat \<Rightarrow> bool" where
  "S_ISREG m \<longleftrightarrow> (m div 4096) mod 16 = 8"

fun stat_of :: "node \<Rightarrow> stat_result" where
  "stat_of (File m t c) = \<lparr>st_mode = S_IFREG + m mod 4096, st_size = length c, st_mtime = t\<rparr>"
| "stat_of (Dir m t) = \<lparr>st_mode = S_IFDIR + m mod 4096, st_size = 4096, st_mtime = t\<rparr>"

text \<open>A path with an embedded NUL is refused by every system call with \<open>ValueError\<close>.\<close>

definition has_nul :: "path \<Rightarrow> bool" where
  "has_nul p = list_ex (\<lambda>c. 0 \<in> set c) p"

text \<open>The error for a path that is absent: \<open>ENOTDIR\<close> below a regular file, else \<open>ENOENT\<close>.\<close>

definition missing :: "fsys \<Rightarrow> path \<Rightarrow> errno" where
  "missing fs p =
     (if list_ex (\<lambda>q. is_file_node (lookup fs q)) (butlast (prefixes p)) then ENOTDIR
      else ENOENT)"

text \<open>
  \<open>os.path.realpath\<close> where no component is a symbolic link: \<open>..\<close> removes the component
  before it (and stays at the root), \<open>.\<close> and empty components vanish, and components that
  do not exist are kept.  \<open>Path.resolve\<close> raises only for an embedded NUL.
\<close>

fun normalize :: "path \<Rightarrow> path \<Rightarrow> path" where
  "normalize acc [] = acc"
| "normalize acc (c # cs) =
     (if c = [] \<or> c = DOT then normalize acc cs
      else if c = DOTDOT then normalize (butlast acc) cs
      else normalize (acc @ [c]) cs)"

definition realpath_lexical :: "path \<Rightarrow> exn + path" where
  "realpath_lexical p = (if has_nul p then Inl ValueError else Inr (normalize [] p))"

definition fs_stat :: "fsys \<Rightarrow> path \<Rightarrow> exn + stat_result" where
  "fs_stat fs p =
     (if has_nul p then Inl ValueError
      else case lookup fs p of
             Some n \<Rightarrow> Inr (stat_of n)
           | None \<Rightarrow> Inl (OSError (missing fs p)))"

definition children :: "fsys \<Rightarrow> path \<Rightarrow> ustr list" where
  "children fs p =
     remdups (map (\<lambda>(q, n). last q) (filter (\<lambda>(q, n). q \<noteq> [] \<and> butlast q = p) (entries fs)))"

definition fs_listdir :: "fsys \<Rightarrow> path \<Rightarrow> exn + ustr list" where
  "fs_listdir fs p =
     (if has_nul p then Inl ValueError
      else case lookup fs p of
             Some (Dir m t) \<Rightarrow> Inr (children fs p)
           | Some (File m t c) \<Rightarrow> Inl (OSError ENOTDIR)
           | None \<Rightarrow> Inl (OSError (missing fs p)))"

definition fs_read :: "fsys \<Rightarrow> path \<Rightarrow> exn + bytes" where
  "fs_read fs p =
     (if has_nul p then Inl ValueError
      else case lookup fs p of
             Some (File m t c) \<Rightarrow> Inr c
           | Some (Dir m t) \<Rightarrow> Inl (OSError EISDIR)
           | None \<Rightarrow> Inl (OSError (missing fs p)))"

definition posix_of :: "fsys \<Rightarrow> posix" where
  "posix_of fs =
     \<lparr>os_realpath = realpath_lexical, os_stat = fs_stat fs, os_listdir = fs_listdir fs,
      os_read = fs_read fs\<rparr>"

section \<open>\<open>pathlib\<close> queries\<close>

text \<open>
  \<open>Path.exists\<close>, \<open>is_dir\<close> and \<open>is_file\<close> answer \<open>False\<close> when \<open>stat\<close> fails with \<open>ENOENT\<close>,
  \<open>ENOTDIR\<close>, \<open>EBADF\<close> or \<open>ELOOP\<close> or with \<open>ValueError\<close>, and re-raise anything else.
\<close>

definition ignore_error :: "errno \<Rightarrow> bool" where
  "ignore_error e \<longleftrightarrow> e = ENOENT \<or> e = ENOTDIR \<or> e = EBADF \<or> e = ELOOP"

definition stat_test :: "(stat_result \<Rightarrow> bool) \<Rightarrow> posix \<Rightarrow> path \<Rightarrow> exn + bool" where
  "stat_test f os p =
     (case os_stat os p of
        Inr st \<Rightarrow> Inr (f st)
      | Inl (OSError e) \<Rightarrow> if ignore_error e then Inr False else Inl (OSError e)
      | Inl ValueError \<Rightarrow> Inr False
      | Inl x \<Rightarrow> Inl x)"

definition path_exists :: "posix \<Rightarrow> path \<Rightarrow> exn + bool" where
  "path_exists = stat_test (\<lambda>st. True)"


definition path_is_file :: "posix \<Rightarrow> path \<Rightarrow> exn + bool" where
  "path_is_file = stat_test (\<lambda>st. S_ISREG (st_mode st))"

definition path_name :: "path \<Rightarrow> ustr" where
  "path_name p = (if p = [] then [] else last p)"


section \<open>The metadata extractor\<close>







section \<open>Read-only requests\<close>





text \<open>
  \<open>Path.read_text(encoding='utf-8')\<close> decodes the whole content strictly and, as every text
  read does, turns \<open>\r\n\<close> and \<open>\r\<close> into \<open>\n\<close>.
\<close>

fun universal_newlines :: "ustr \<Rightarrow> ustr" where
  "universal_newlines [] = []"
| "universal_newlines [c] = (if c = 13 then [10] else [c])"
| "universal_newlines (c # d # cs) =
     (if c = 13 \<and> d = 10 then 10 # universal_newlines cs
      else if c = 13 then 10 # universal_newlines (d # cs)
      else c # universal_newlines (d # cs))"

definition read_text :: "posix \<Rightarrow> path \<Rightarrow> exn + ustr" where
  "read_text os p =
     (case os_read os p of
        Inl e \<Rightarrow> Inl e
      | Inr bs \<Rightarrow>
          (case utf8_decode bs of
             None \<Rightarrow> Inl UnicodeDecodeError
           | Some s \<Rightarrow> Inr (universal_newlines s)))"

text \<open>
  The three answers of \<open>read_file\<close>: the download, the text with its encoding, and the JSON
  body for content that is not text (\<open>mime_type\<close>, \<open>size\<close>, \<open>download_url\<close>; its \<open>error\<close>
  field is a fixed text).  \<open>guess_type\<close> stands for \<open>mimetypes.guess_type\<close>, a table of the
  Python installation.
\<close>

datatype read_response =
    FileResponse path ustr ustr
  | FileContent ustr ustr
  | BinaryHint "ustr option" nat ustr

definition read_file ::
  "(ustr \<Rightarrow> ustr option) \<Rightarrow> posix \<Rightarrow> path \<Rightarrow> ustr \<Rightarrow> bool \<Rightarrow> http_error + read_response" where
  "read_file guess_type os BASE_DIR file_path download =
     (case safe_path os BASE_DIR (Some file_path) of
        Inl e \<Rightarrow> Inl e
      | Inr path \<Rightarrow>
     (case path_exists os path of
        Inl e \<Rightarrow> Inl (HTTPException 500 (Caught [] e))
      | Inr ex \<Rightarrow>
          if \<not> ex then Inl (HTTPException 404 (Text (str ''File not found: '' @ file_path)))
          else
     (case path_is_file os path of
        Inl e \<Rightarrow> Inl (HTTPException 500 (Caught [] e))
      | Inr isf \<Rightarrow>
          if \<not> isf then Inl (HTTPException 400 (Text (str ''Path is not a file: '' @ file_path)))
          else if download then
            Inr (FileResponse path (path_name path) (str ''application/octet-stream''))
          else
     (case read_text os path of
        Inr content \<Rightarrow> Inr (FileContent content (str ''utf-8''))
      | Inl UnicodeDecodeError \<Rightarrow>
          (case os_stat os path of
             Inl e \<Rightarrow> Inl (HTTPException 500 (Caught [] e))
           | Inr st \<Rightarrow>
               Inr (BinaryHint (guess_type (path_str path)) (st_size st)
                      (str ''/files/'' @ file_path @ str ''/content?download=true'')))
      | Inl e \<Rightarrow> Inl (HTTPException 500 (Caught [] e))))))"

section \<open>System calls that change the file system\<close>

text \<open>
  Each call returns the exception it raises, if any, and the state it leaves behind.
\<close>

unbundle bit_operations_syntax

definition new_mode :: "fsys \<Rightarrow> nat \<Rightarrow> nat" where
  "new_mode fs m = m - (m AND umask fs)"

definition put :: "fsys \<Rightarrow> path \<Rightarrow> node \<Rightarrow> fsys" where
  "put fs p n = fs\<lparr>entries := AList.update p n (entries fs)\<rparr>"

text \<open>\<open>os.path.exists\<close> and \<open>os.path.isdir\<close> (and \<open>Path.is_dir\<close>, which cannot raise on this state).\<close>

definition fs_exists :: "fsys \<Rightarrow> path \<Rightarrow> bool" where
  "fs_exists fs p \<longleftrightarrow> \<not> has_nul p \<and> lookup fs p \<noteq> None"

definition fs_isdir :: "fsys \<Rightarrow> path \<Rightarrow> bool" where
  "fs_isdir fs p \<longleftrightarrow> \<not> has_nul p \<and> is_dir_node (lookup fs p)"

definition os_mkdir :: "fsys \<Rightarrow> path \<Rightarrow> exn option \<times> fsys" where
  "os_mkdir fs p =
     (if has_nul p then (Some ValueError, fs)
      else if p = [] \<or> lookup fs p \<noteq> None then (Some (OSError EEXIST), fs)
      else if is_dir_node (lookup fs (butlast p)) then
        (None, put fs p (Dir (new_mode fs 511) (clock fs)))
      else (Some (OSError (missing fs p)), fs))"




text \<open>\<open>os.makedirs(name, exist_ok=True)\<close>, used by \<open>shutil.copytree\<close>.\<close>

function os_makedirs :: "fsys \<Rightarrow> path \<Rightarrow> exn option \<times> fsys" where
  "os_makedirs fs p =
     (case (if p \<noteq> [] \<and> \<not> fs_exists fs (butlast p) then
              (case os_makedirs fs (butlast p) of
                 (Some e, f) \<Rightarrow> if e = OSError EEXIST then (None, f) else (Some e, f)
               | (None, f) \<Rightarrow> (None, f))
            else (None, fs)) of
        (Some e, fs1) \<Rightarrow> (Some e, fs1)
      | (None, fs1) \<Rightarrow>
          (case os_mkdir fs1 p of
             (None, f) \<Rightarrow> (None, f)
           | (Some e, f) \<Rightarrow> if is_OSError e \<and> fs_isdir f p then (None, f) else (Some e, f)))"
  by pat_completeness auto
termination
  by (relation "measure (\<lambda>(fs, p). length p)") auto

declare os_makedirs.simps [simp del]

text \<open>
  Opening for writing creates the file, or empties the one that is there.
\<close>

definition open_w :: "fsys \<Rightarrow> path \<Rightarrow> exn option \<times> fsys" where
  "open_w fs p =
     (if has_nul p then (Some ValueError, fs)
      else case lookup fs p of
             Some (Dir m t) \<Rightarrow> (Some (OSError EISDIR), fs)
           | Some (File m t c) \<Rightarrow> (None, put fs p (File m (clock fs) []))
           | None \<Rightarrow>
               if is_dir_node (lookup fs (butlast p)) then
                 (None, put fs p (File (new_mode fs 438) (clock fs) []))
               else (Some (OSError (missing fs p)), fs))"





text \<open>
  \<open>shutil.copy2\<close>: a destination that is a directory receives the file under the source's
  name; a file is not copied onto itself; the copy has the source's bytes, permission bits
  and modification time.
\<close>

definition copy2 :: "fsys \<Rightarrow> path \<Rightarrow> path \<Rightarrow> exn option \<times> fsys" where
  "copy2 fs src dst0 =
     (let dst = (if fs_isdir fs dst0 then dst0 @ [path_name src] else dst0)
      in if has_nul src \<or> has_nul dst then (Some ValueError, fs)
         else if src = dst \<and> lookup fs src \<noteq> None then (Some SameFileError, fs)
         else case lookup fs src of
                None \<Rightarrow> (Some (OSError (missing fs src)), fs)
              | Some (Dir m t) \<Rightarrow> (Some (OSError EISDIR), fs)
              | Some (File m t c) \<Rightarrow>
                  (case open_w fs dst of
                     (Some e, fs1) \<Rightarrow> (Some e, fs1)
                   | (None, fs1) \<Rightarrow> (None, put fs1 dst (File m t c))))"

text \<open>\<open>shutil.copystat\<close> on directories: permission bits and modification time.\<close>

definition copystat :: "fsys \<Rightarrow> path \<Rightarrow> path \<Rightarrow> exn option \<times> fsys" where
  "copystat fs src dst =
     (if has_nul src \<or> has_nul dst then (Some ValueError, fs)
      else case (lookup fs src, lookup fs dst) of
             (None, _) \<Rightarrow> (Some (OSError (missing fs src)), fs)
           | (_, None) \<Rightarrow> (Some (OSError (missing fs dst)), fs)
           | (Some (Dir m t), Some (Dir m' t')) \<Rightarrow> (None, put fs dst (Dir m t))
           | (Some (Dir m t), Some (File m' t' c)) \<Rightarrow> (None, put fs dst (File m t c))
           | (Some (File m t c0), Some (Dir m' t')) \<Rightarrow> (None, put fs dst (Dir m t))
           | (Some (File m t c0), Some (File m' t' c)) \<Rightarrow> (None, put fs dst (File m t c)))"

text \<open>
  \<open>shutil.copytree(src, dst, dirs_exist_ok=True)\<close>.  The first argument bounds the depth of
  the recursion, as the interpreter's recursion limit does.  The entries are listed before
  the destination is made.  Inside the loop an \<open>Error\<close> or \<open>OSError\<close> is recorded and the
  loop goes on; any other exception ends the copy at once.  At the end the recorded
  errors, if any, are raised as one \<open>Error\<close>.
\<close>

fun copytree :: "nat \<Rightarrow> fsys \<Rightarrow> path \<Rightarrow> path \<Rightarrow> exn option \<times> fsys"
  and copy_entries ::
    "nat \<Rightarrow> fsys \<Rightarrow> path \<Rightarrow> path \<Rightarrow> ustr list \<Rightarrow> exn list \<Rightarrow> (exn + exn list) \<times> fsys" where
  "copytree 0 fs src dst = (Some RecursionError, fs)"
| "copytree (Suc n) fs src dst =
     (case fs_listdir fs src of
        Inl e \<Rightarrow> (Some e, fs)
      | Inr names \<Rightarrow>
          (case os_makedirs fs dst of
             (Some e, fs1) \<Rightarrow> (Some e, fs1)
           | (None, fs1) \<Rightarrow>
               (case copy_entries n fs1 src dst names [] of
                  (Inl e, fs2) \<Rightarrow> (Some e, fs2)
                | (Inr errors, fs2) \<Rightarrow>
                    (case copystat fs2 src dst of
                       (None, fs3) \<Rightarrow>
                         if errors = [] then (None, fs3) else (Some (ShutilError errors), fs3)
                     | (Some e, fs3) \<Rightarrow>
                         if is_OSError e then (Some (ShutilError (errors @ [e])), fs3)
                         else (Some e, fs3)))))"
| "copy_entries n fs src dst [] errors = (Inr errors, fs)"
| "copy_entries n fs src dst (x # xs) errors =
     (case (if fs_isdir fs (src @ [x]) then copytree n fs (src @ [x]) (dst @ [x])
            else copy2 fs (src @ [x]) (dst @ [x])) of
        (None, fs1) \<Rightarrow> copy_entries n fs1 src dst xs errors
      | (Some e, fs1) \<Rightarrow>
          (case e of
             ShutilError es \<Rightarrow> copy_entries n fs1 src dst xs (errors @ es)
           | SameFileError \<Rightarrow> copy_entries n fs1 src dst xs (errors @ [e])
           | OSError c \<Rightarrow> copy_entries n fs1 src dst xs (errors @ [e])
           | _ \<Rightarrow> (Inl e, fs1)))"

section \<open>Requests that change the file system\<close>







section \<open>A small file system to evaluate on\<close>

definition demo_fs :: fsys where
  "demo_fs =
     \<lparr>entries = [([], Dir 493 0), ([str ''data''], Dir 493 10),
                 ([str ''data'', str ''docs''], Dir 493 20),
                 ([str ''data'', str ''docs'', str ''b.txt''], File 420 30 (str ''hello'')),
                 ([str ''data'', str ''docs'', str ''a.bin''], File 384 40 [255, 254]),
                 ([str ''data'', str ''empty''], Dir 448 50),
                 ([str ''data-evil''], Dir 493 60),
                 ([str ''data'', str ''backup''], Dir 493 70),
                 ([str ''data'', str ''backup'', str ''old.txt''], File 420 80 (str ''kept'')),
                 ([str ''data'', str ''backup'', str ''b.txt''], File 384 90 (str ''stale''))],
      clock = 100, umask = 18\<rparr>"


text \<open>
  A state is well formed when the root is a directory and the parent of every entry is a
  directory.
\<close>

definition wf_fs :: "fsys \<Rightarrow> bool" where
  "wf_fs fs \<longleftrightarrow>
     is_dir_node (lookup fs []) \<and>
     list_all (\<lambda>(q, n). q = [] \<or> is_dir_node (lookup fs (butlast q))) (entries fs)"



text \<open>
  The same condition on the lookup function alone, and the condition that no entry has a
  NUL in its path; both are kept by every step of a copy.
\<close>

definition well_formed :: "(path \<Rightarrow> node option) \<Rightarrow> bool" where
  "well_formed look \<longleftrightarrow>
     is_dir_node (look []) \<and>
     (\<forall>q. look q \<noteq> None \<longrightarrow> q \<noteq> [] \<longrightarrow> is_dir_node (look (butlast q)))"

definition nul_free :: "fsys \<Rightarrow> bool" where
  "nul_free fs \<longleftrightarrow> list_all (\<lambda>(q, n). \<not> has_nul q) (entries fs)"

section \<open>What a merging copy leaves behind\<close>

text \<open>
  \<open>made fs dst\<close> is the lookup function once \<open>dst\<close> and its missing ancestors have been made;
  \<open>merged fs src dst\<close> is the lookup function of a state in which, in addition, every entry
  at or below \<open>src\<close> is also found at the same place below \<open>dst\<close>; \<open>merged_names\<close> is the
  same when only the children of \<open>src\<close> named in \<open>S\<close> have been copied.
\<close>

definition made :: "fsys \<Rightarrow> path \<Rightarrow> path \<Rightarrow> node option" where
  "made fs dst q =
     (if prefix q dst \<and> lookup fs q = None then Some (Dir (new_mode fs 511) (clock fs))
      else lookup fs q)"

definition merged :: "fsys \<Rightarrow> path \<Rightarrow> path \<Rightarrow> path \<Rightarrow> node option" where
  "merged fs src dst q =
     (if prefix dst q \<and> lookup fs (src @ drop (length dst) q) \<noteq> None
      then lookup fs (src @ drop (length dst) q)
      else made fs dst q)"

definition merged_names :: "fsys \<Rightarrow> path \<Rightarrow> path \<Rightarrow> ustr set \<Rightarrow> path \<Rightarrow> node option" where
  "merged_names fs src dst S q =
     (if (\<exists>x \<in> S. prefix (dst @ [x]) q) \<and> lookup fs (src @ drop (length dst) q) \<noteq> None
      then lookup fs (src @ drop (length dst) q)
      else made fs dst q)"

text \<open>
  The conditions under which a directory \<open>src\<close> can be merged into \<open>dst\<close> within recursion
  depth \<open>n\<close>: neither lies inside the other, no ancestor of \<open>dst\<close> (nor \<open>dst\<close>) is a regular
  file, a directory of the source never meets a file of the destination nor a file a
  directory, and the source tree is less than \<open>n\<close> levels deep.
\<close>

definition mergeable :: "(path \<Rightarrow> node option) \<Rightarrow> path \<Rightarrow> path \<Rightarrow> nat \<Rightarrow> bool" where
  "mergeable look src dst n \<longleftrightarrow>
     well_formed look \<and> (\<forall>q. look q \<noteq> None \<longrightarrow> \<not> has_nul q) \<and> \<not> has_nul dst \<and>
     is_dir_node (look src) \<and> \<not> prefix src dst \<and> \<not> prefix dst src \<and>
     (\<forall>r. prefix r dst \<longrightarrow> \<not> is_file_node (look r)) \<and>
     (\<forall>r. is_dir_node (look (src @ r)) \<longrightarrow> \<not> is_file_node (look (dst @ r))) \<and>
     (\<forall>r. is_file_node (look (src @ r)) \<longrightarrow> \<not> is_dir_node (look (dst @ r))) \<and>
     (\<forall>r. look (src @ r) \<noteq> None \<longrightarrow> length r < n)"

text \<open>
  The same conditions as a test on the entries of a state, together with well-formedness.
\<close>

definition can_merge :: "fsys \<Rightarrow> path \<Rightarrow> path \<Rightarrow> nat \<Rightarrow> bool" where
  "can_merge fs src dst n \<longleftrightarrow>
     wf_fs fs \<and> nul_free fs \<and> \<not> has_nul dst \<and> is_dir_node (lookup fs src) \<and>
     \<not> prefix src dst \<and> \<not> prefix dst src \<and>
     list_all (\<lambda>r. \<not> is_file_node (lookup fs r)) (prefixes dst) \<and>
     list_all (\<lambda>(q, k). prefix src q \<longrightarrow>
                 (let r = drop (length src) q
                  in (is_dir_node (lookup fs q) \<longrightarrow> \<not> is_file_node (lookup fs (dst @ r))) \<and>
                     (is_file_node (lookup fs q) \<longrightarrow> \<not> is_dir_node (lookup fs (dst @ r))) \<and>
                     length r < n))
       (entries fs)"

section \<open>The resolver stays inside the root\<close>




section \<open>The metadata extractor\<close>




lemma stat_test_ok: "os_stat os p = Inr st \<Longrightarrow> stat_test f os p = Inr (f st)"
  by (simp add: stat_test_def)

lemma not_dir_and_file: "S_ISDIR m \<Longrightarrow> \<not> S_ISREG m"
  by (simp add: S_ISDIR_def S_ISREG_def)




section \<open>Listing and reading\<close>







lemma stat_exists: "os_stat os p = Inr st \<Longrightarrow> path_exists os p = Inr True"
  by (simp add: path_exists_def stat_test_ok)

text \<open>
  C6.  With the path resolved to \<open>p\<close>: reading is refused with 404 when \<open>p\<close> does not exist
  and with 400 (not a file) when \<open>p\<close> is a directory.  For a regular file whose bytes are
  not valid UTF-8 the answer is no error but the body with the guessed mime type, the size
  from \<open>stat\<close> and the download URL; for a regular file whose bytes are valid UTF-8 the
  answer is the text that \<open>read_text\<close> decodes from them, with the encoding \<open>utf-8\<close>.
\<close>

theorem read_file_outcomes:
  assumes "safe_path os BASE_DIR (Some file_path) = Inr p"
  shows "(path_exists os p = Inr False \<longrightarrow>
            read_file guess_type os BASE_DIR file_path download =
              Inl (HTTPException 404 (Text (str ''File not found: '' @ file_path))))
     \<and> (os_stat os p = Inr st \<and> S_ISDIR (st_mode st) \<longrightarrow>
            read_file guess_type os BASE_DIR file_path download =
              Inl (HTTPException 400 (Text (str ''Path is not a file: '' @ file_path))))
     \<and> (os_stat os p = Inr st \<and> S_ISREG (st_mode st) \<and> os_read os p = Inr bs \<and>
          utf8_decode bs = None \<longrightarrow>
            read_file guess_type os BASE_DIR file_path False =
              Inr (BinaryHint (guess_type (path_str p)) (st_size st)
                     (str ''/files/'' @ file_path @ str ''/content?download=true'')))
     \<and> (os_stat os p = Inr st \<and> S_ISREG (st_mode st) \<and> os_read os p = Inr bs \<and>
          utf8_decode bs = Some s \<longrightarrow>
            read_file guess_type os BASE_DIR file_path False =
              Inr (FileContent (universal_newlines s) (str ''utf-8'')))"
proof (intro conjI impI)
  assume "path_exists os p = Inr False"
  with assms show "read_file guess_type os BASE_DIR file_path download =
      Inl (HTTPException 404 (Text (str ''File not found: '' @ file_path)))"
    by (simp add: read_file_def)
next
  assume "os_stat os p = Inr st \<and> S_ISDIR (st_mode st)"
  with assms show "read_file guess_type os BASE_DIR file_path download =
      Inl (HTTPException 400 (Text (str ''Path is not a file: '' @ file_path)))"
    by (simp add: read_file_def stat_exists path_is_file_def stat_test_ok not_dir_and_file)
next
  assume "os_stat os p = Inr st \<and> S_ISREG (st_mode st) \<and> os_read os p = Inr bs \<and>
          utf8_decode bs = None"
  with assms show "read_file guess_type os BASE_DIR file_path False =
      Inr (BinaryHint (guess_type (path_str p)) (st_size st)
             (str ''/files/'' @ file_path @ str ''/content?download=true''))"
    by (simp add: read_file_def stat_exists path_is_file_def stat_test_ok read_text_def)
next
  assume "os_stat os p = Inr st \<and> S_ISREG (st_mode st) \<and> os_read os p = Inr bs \<and>
          utf8_decode bs = Some s"
  with assms show "read_file guess_type os BASE_DIR file_path False =
      Inr (FileContent (universal_newlines s) (str ''utf-8''))"
    by (simp add: read_file_def stat_exists path_is_file_def stat_test_ok read_text_def)
qed

theorem read_file_outcomes_witness:
  "safe_path (posix_of demo_fs) [str ''data''] (Some (str ''nothing'')) = Inr [str ''data'', str ''nothing'']
   \<and> read_file (\<lambda>n. None) (posix_of demo_fs) [str ''data''] (str ''nothing'') False =
       Inl (HTTPException 404 (Text (str ''File not found: '' @ str ''nothing'')))
   \<and> safe_path (posix_of demo_fs) [str ''data''] (Some (str ''docs'')) = Inr [str ''data'', str ''docs'']
   \<and> read_file (\<lambda>n. None) (posix_of demo_fs) [str ''data''] (str ''docs'') False =
       Inl (HTTPException 400 (Text (str ''Path is not a file: '' @ str ''docs'')))
   \<and> safe_path (posix_of demo_fs) [str ''data''] (Some (str ''docs/a.bin''))
       = Inr [str ''data'', str ''docs'', str ''a.bin'']
   \<and> utf8_decode [255, 254] = None
   \<and> read_file (\<lambda>n. None) (posix_of demo_fs) [str ''data''] (str ''docs/a.bin'') False =
       Inr (BinaryHint None 2 (str ''/files/'' @ str ''docs/a.bin'' @ str ''/content?download=true''))
   \<and> safe_path (posix_of demo_fs) [str ''data''] (Some (str ''docs/b.txt''))
       = Inr [str ''data'', str ''docs'', str ''b.txt'']
   \<and> utf8_decode (str ''hello'') = Some (str ''hello'')
   \<and> read_file (\<lambda>n. None) (posix_of demo_fs) [str ''data''] (str ''docs/b.txt'') False =
       Inr (FileContent (str ''hello'') (str ''utf-8''))"
proof -
  let ?os = "posix_of demo_fs" and ?B = "[str ''data'']"
  have a1: "safe_path ?os ?B (Some (str ''nothing'')) = Inr [str ''data'', str ''nothing'']"
    by code_simp
  have a2: "path_exists ?os [str ''data'', str ''nothing''] = Inr False"
    by code_simp
  have b1: "safe_path ?os ?B (Some (str ''docs'')) = Inr [str ''data'', str ''docs'']"
    by code_simp
  have b2: "os_stat ?os [str ''data'', str ''docs'']
      = Inr \<lparr>st_mode = 16877, st_size = 4096, st_mtime = 20\<rparr>
      \<and> S_ISDIR (st_mode \<lparr>st_mode = 16877, st_size = 4096, st_mtime = 20\<rparr>)"
    by code_simp
  have c1: "safe_path ?os ?B (Some (str ''docs/a.bin'')) = Inr [str ''data'', str ''docs'', str ''a.bin'']"
    by code_simp
  have c2: "os_stat ?os [str ''data'', str ''docs'', str ''a.bin'']
      = Inr \<lparr>st_mode = 33152, st_size = 2, st_mtime = 40\<rparr>
      \<and> S_ISREG (st_mode \<lparr>st_mode = 33152, st_size = 2, st_mtime = 40\<rparr>)
      \<and> os_read ?os [str ''data'', str ''docs'', str ''a.bin''] = Inr [255, 254]
      \<and> utf8_decode [255, 254] = None"
    by code_simp
  have d1: "safe_path ?os ?B (Some (str ''docs/b.txt'')) = Inr [str ''data'', str ''docs'', str ''b.txt'']"
    by code_simp
  have d2: "os_stat ?os [str ''data'', str ''docs'', str ''b.txt'']
      = Inr \<lparr>st_mode = 33188, st_size = 5, st_mtime = 30\<rparr>
      \<and> S_ISREG (st_mode \<lparr>st_mode = 33188, st_size = 5, st_mtime = 30\<rparr>)
      \<and> os_read ?os [str ''data'', str ''docs'', str ''b.txt''] = Inr (str ''hello'')
      \<and> utf8_decode (str ''hello'') = Some (str ''hello'')"
    by code_simp
  have d3: "universal_newlines (str ''hello'') = str ''hello''"
    by code_simp
  have r1: "read_file (\<lambda>n. None) ?os ?B (str ''nothing'') False =
       Inl (HTTPException 404 (Text (str ''File not found: '' @ str ''nothing'')))"
    using read_file_outcomes [OF a1, THEN conjunct1, rule_format, OF a2] .
  have r2: "read_file (\<lambda>n. None) ?os ?B (str ''docs'') False =
       Inl (HTTPException 400 (Text (str ''Path is not a file: '' @ str ''docs'')))"
    using read_file_outcomes [OF b1, THEN conjunct2, THEN conjunct1, rule_format, OF b2] .
  have r3: "read_file (\<lambda>n. None) ?os ?B (str ''docs/a.bin'') False =
       Inr (BinaryHint None 2 (str ''/files/'' @ str ''docs/a.bin'' @ str ''/content?download=true''))"
    using read_file_outcomes [OF c1, THEN conjunct2, THEN conjunct2, THEN conjunct1,
      rule_format, OF c2, of "\<lambda>n. None"]
    by simp
  have r4: "read_file (\<lambda>n. None) ?os ?B (str ''docs/b.txt'') False =
       Inr (FileContent (str ''hello'') (str ''utf-8''))"
    using read_file_outcomes [OF d1, THEN conjunct2, THEN conjunct2, THEN conjunct2,
      rule_format, OF d2, of "\<lambda>n. None"]
    unfolding d3 .
  from c2 have c3: "utf8_decode [255, 254] = None"
    by (elim conjE)
  from d2 have d4: "utf8_decode (str ''hello'') = Some (str ''hello'')"
    by (elim conjE)
  show ?thesis
    by (intro conjI) (rule a1 r1 b1 r2 c1 c3 r3 d1 d4 r4)+
qed

section \<open>Escapes are refused as such\<close>



section \<open>UTF-8 and percent-encoding round trips\<close>



























section \<open>The first three steps of the resolver\<close>




section \<open>Facts about the file-system state\<close>

lemma lookup_put: "lookup (put fs p n) q = (if q = p then Some n else lookup fs q)"
  by (simp add: lookup_def put_def update_conv')



lemma has_nul_append: "has_nul (p @ q) \<longleftrightarrow> has_nul p \<or> has_nul q"
  by (auto simp: has_nul_def list_ex_iff)







section \<open>Deleting the root\<close>



section \<open>Writing onto a directory\<close>




section \<open>Creating the parents, writing and reading back\<close>


lemma not_file_is_dir:
  assumes "x \<noteq> None" and "\<not> is_file_node x"
  shows "is_dir_node x"
proof (cases x)
  case None
  with assms(1) show ?thesis by simp
next
  case (Some n)
  with assms(2) show ?thesis by (cases n) simp_all
qed

lemma put_fields: "clock (put fs p n) = clock fs" "umask (put fs p n) = umask fs"
  by (simp_all add: put_def)

lemma dir_not_none: "is_dir_node x \<Longrightarrow> x \<noteq> None"
  by (cases x) simp_all

lemma wf_parent:
  assumes "wf_fs fs" and "lookup fs q \<noteq> None" and "q \<noteq> []"
  shows "is_dir_node (lookup fs (butlast q))"
proof -
  from assms(2) obtain n where "map_of (entries fs) q = Some n"
    by (auto simp: lookup_def)
  then have "(q, n) \<in> set (entries fs)"
    by (rule map_of_SomeD)
  with assms(1,3) show ?thesis
    by (auto simp: wf_fs_def list_all_iff)
qed













section \<open>Copying\<close>

subsection \<open>Well-formed lookup functions\<close>

lemma wf_fs_well_formed: "wf_fs fs \<Longrightarrow> well_formed (lookup fs)"
  using wf_parent[of fs] by (auto simp: well_formed_def wf_fs_def)

lemma nul_free_lookup: "nul_free fs \<Longrightarrow> lookup fs q \<noteq> None \<Longrightarrow> \<not> has_nul q"
proof -
  assume a: "nul_free fs" and "lookup fs q \<noteq> None"
  then obtain n where "map_of (entries fs) q = Some n"
    by (auto simp: lookup_def)
  then have "(q, n) \<in> set (entries fs)"
    by (rule map_of_SomeD)
  with a show ?thesis
    by (auto simp: nul_free_def list_all_iff)
qed

lemma wfl_parent:
  "well_formed look \<Longrightarrow> look q \<noteq> None \<Longrightarrow> q \<noteq> [] \<Longrightarrow> is_dir_node (look (butlast q))"
  by (simp add: well_formed_def)

lemma wfl_below_dir:
  assumes "well_formed look"
  shows "look (p @ r) \<noteq> None \<Longrightarrow> r \<noteq> [] \<Longrightarrow> is_dir_node (look p)"
proof (induction r rule: rev_induct)
  case Nil
  then show ?case by simp
next
  case (snoc x r)
  have d: "is_dir_node (look (p @ r))"
    using wfl_parent[OF assms, of "p @ r @ [x]"] snoc.prems(1) by (simp add: butlast_append)
  show ?case
  proof (cases "r = []")
    case True
    with d show ?thesis by simp
  next
    case False
    from snoc.IH[OF dir_not_none[OF d] False] show ?thesis .
  qed
qed

lemma wfl_prefix_exists:
  assumes "well_formed look" and "look q \<noteq> None" and "prefix r q"
  shows "look r \<noteq> None"
proof -
  from assms(3) obtain z where q: "q = r @ z"
    by (auto simp: prefix_def)
  show ?thesis
  proof (cases "z = []")
    case True
    with q assms(2) show ?thesis by simp
  next
    case False
    from wfl_below_dir[OF assms(1) _ False, of r] assms(2) q show ?thesis
      by (auto dest: dir_not_none)
  qed
qed

lemma well_formed_update:
  assumes "well_formed look" and "p \<noteq> []" and "is_dir_node (look (butlast p))"
    and "look p = None \<or> is_dir_node (look p) = is_dir_node (Some n)"
  shows "well_formed (look(p \<mapsto> n))"
proof -
  have root: "is_dir_node ((look(p \<mapsto> n)) [])"
    using assms(1,2) by (simp add: well_formed_def)
  have par: "is_dir_node ((look(p \<mapsto> n)) (butlast q))"
    if a: "(look(p \<mapsto> n)) q \<noteq> None" "q \<noteq> []" for q
  proof (cases "q = p")
    case True
    have "butlast p \<noteq> p"
      using assms(2) by (metis length_butlast diff_less length_greater_0_conv less_numeral_extra(1)
          nat_neq_iff)
    with True assms(3) show ?thesis by simp
  next
    case False
    with a have e: "look q \<noteq> None" by simp
    then have d: "is_dir_node (look (butlast q))"
      using wfl_parent[OF assms(1) _ a(2)] by simp
    show ?thesis
    proof (cases "butlast q = p")
      case True
      with d assms(4) show ?thesis
        by (auto dest: dir_not_none)
    next
      case False
      with d show ?thesis by simp
    qed
  qed
  show ?thesis
    unfolding well_formed_def using root par by blast
qed

lemma lookup_put_fun: "lookup (put fs p n) = (lookup fs)(p \<mapsto> n)"
  by (rule ext) (simp add: lookup_put)

lemma children_iff: "x \<in> set (children fs p) \<longleftrightarrow> lookup fs (p @ [x]) \<noteq> None"
proof
  assume "x \<in> set (children fs p)"
  then obtain q n where a: "(q, n) \<in> set (entries fs)" "q \<noteq> []" "butlast q = p" "last q = x"
    by (auto simp: children_def)
  then have "q = p @ [x]"
    using append_butlast_last_id[of q] by simp
  with a(1) have "p @ [x] \<in> fst ` set (entries fs)"
    by force
  then show "lookup fs (p @ [x]) \<noteq> None"
    by (simp add: lookup_def map_of_eq_None_iff)
next
  assume "lookup fs (p @ [x]) \<noteq> None"
  then obtain n where "map_of (entries fs) (p @ [x]) = Some n"
    by (auto simp: lookup_def)
  then have "(p @ [x], n) \<in> set (entries fs)"
    by (rule map_of_SomeD)
  then have "(\<lambda>(q, n). last q) (p @ [x], n) \<in>
      (\<lambda>(q, n). last q) ` {e \<in> set (entries fs). case e of (q, n) \<Rightarrow> q \<noteq> [] \<and> butlast q = p}"
    by (intro imageI) simp
  then show "x \<in> set (children fs p)"
    by (simp add: children_def)
qed

lemma children_distinct: "distinct (children fs p)"
  by (simp add: children_def)

lemma listdir_dir:
  "\<not> has_nul p \<Longrightarrow> is_dir_node (lookup fs p) \<Longrightarrow> fs_listdir fs p = Inr (children fs p)"
  by (cases "lookup fs p" rule: is_dir_node.cases) (simp_all add: fs_listdir_def)

subsection \<open>Making the destination\<close>

lemma os_mkdir_new:
  "\<not> has_nul p \<Longrightarrow> p \<noteq> [] \<Longrightarrow> lookup fs p = None \<Longrightarrow> is_dir_node (lookup fs (butlast p)) \<Longrightarrow>
   os_mkdir fs p = (None, put fs p (Dir (new_mode fs 511) (clock fs)))"
  by (simp add: os_mkdir_def)

lemma os_mkdir_exists:
  "\<not> has_nul p \<Longrightarrow> lookup fs p \<noteq> None \<Longrightarrow> os_mkdir fs p = (Some (OSError EEXIST), fs)"
  by (simp add: os_mkdir_def)

lemma os_makedirs_creates:
  "well_formed (lookup fs) \<Longrightarrow> \<not> has_nul q \<Longrightarrow>
   \<forall>r. prefix r q \<longrightarrow> \<not> is_file_node (lookup fs r) \<Longrightarrow>
     \<exists>fs'. os_makedirs fs q = (None, fs') \<and> lookup fs' = made fs q
       \<and> clock fs' = clock fs \<and> umask fs' = umask fs"
proof (induction q rule: rev_induct)
  case Nil
  have d: "is_dir_node (lookup fs [])"
    using Nil.prems(1) by (simp add: well_formed_def)
  then have e: "lookup fs [] \<noteq> None"
    by (rule dir_not_none)
  have "os_mkdir fs [] = (Some (OSError EEXIST), fs)"
    by (simp add: os_mkdir_def has_nul_def)
  then have "os_makedirs fs [] = (None, fs)"
    using d by (subst os_makedirs.simps) (simp add: fs_isdir_def has_nul_def)
  moreover have "lookup fs = made fs []"
    using e by (auto simp: made_def fun_eq_iff)
  ultimately show ?case by simp
next
  case (snoc x q)
  let ?p = "q @ [x]"
  let ?d = "Dir (new_mode fs 511) (clock fs)"
  note wf = snoc.prems(1)
  have nn: "\<not> has_nul ?p" "\<not> has_nul q"
    using snoc.prems(2) by (simp_all add: has_nul_append)
  have nf: "\<forall>r. prefix r q \<longrightarrow> \<not> is_file_node (lookup fs r)"
    using snoc.prems(3) by (auto intro: prefix_prefix)
  have nfp: "\<not> is_file_node (lookup fs ?p)" "\<not> is_file_node (lookup fs q)"
    using snoc.prems(3) by simp_all
  show ?case
  proof (cases "lookup fs q = None")
    case qn: True
    have pn: "lookup fs ?p = None"
    proof (rule ccontr)
      assume "lookup fs ?p \<noteq> None"
      from wfl_parent[OF wf this] have "is_dir_node (lookup fs q)"
        by simp
      with qn show False by simp
    qed
    from snoc.IH[OF wf nn(2) nf] obtain fs1 where
      f1: "os_makedirs fs q = (None, fs1)" and l1: "lookup fs1 = made fs q"
      and c1: "clock fs1 = clock fs" "umask fs1 = umask fs"
      by blast
    have p1: "lookup fs1 ?p = None" and q1: "is_dir_node (lookup fs1 q)"
      using l1 pn qn by (simp_all add: made_def)
    have nm: "new_mode fs1 511 = new_mode fs 511"
      using c1 by (simp add: new_mode_def)
    have m1: "os_mkdir fs1 ?p = (None, put fs1 ?p ?d)"
      using os_mkdir_new[OF nn(1) _ p1] q1 c1 nm by simp
    have om: "os_makedirs fs ?p = (None, put fs1 ?p ?d)"
      using qn by (subst os_makedirs.simps) (simp add: fs_exists_def f1 m1)
    have "lookup (put fs1 ?p ?d) = made fs ?p"
      using l1 pn by (auto simp: lookup_put_fun made_def fun_eq_iff)
    with om c1 show ?thesis
      by (simp add: put_fields)
  next
    case qe: False
    have ex: "fs_exists fs q"
      using qe nn(2) by (simp add: fs_exists_def)
    have all: "\<And>r. prefix r q \<Longrightarrow> lookup fs r \<noteq> None"
      using wfl_prefix_exists[OF wf qe] .
    have qd: "is_dir_node (lookup fs q)"
      using qe nfp(2) by (rule not_file_is_dir)
    show ?thesis
    proof (cases "lookup fs ?p = None")
      case pn: True
      have m1: "os_mkdir fs ?p = (None, put fs ?p ?d)"
        using os_mkdir_new[OF nn(1) _ pn] qd by simp
      have om: "os_makedirs fs ?p = (None, put fs ?p ?d)"
        using ex by (subst os_makedirs.simps) (simp add: m1)
      have "lookup (put fs ?p ?d) = made fs ?p"
        using pn all by (auto simp: lookup_put_fun made_def fun_eq_iff)
      with om show ?thesis
        by (simp add: put_fields)
    next
      case pe: False
      have pd: "is_dir_node (lookup fs ?p)"
        using pe nfp(1) by (rule not_file_is_dir)
      have om: "os_makedirs fs ?p = (None, fs)"
        using ex pd nn(1)
        by (subst os_makedirs.simps) (simp add: os_mkdir_exists[OF nn(1) pe] fs_isdir_def)
      have "lookup fs = made fs ?p"
        using pe all by (auto simp: made_def fun_eq_iff)
      with om show ?thesis by simp
    qed
  qed
qed

subsection \<open>Copying one file and the directory's metadata\<close>

lemma copy2_file:
  assumes "lookup fs s = Some (File m t c)" and "\<not> has_nul s" and "\<not> has_nul d" and "s \<noteq> d"
    and "\<not> is_dir_node (lookup fs d)" and "is_dir_node (lookup fs (butlast d))"
  shows "\<exists>fs'. copy2 fs s d = (None, fs') \<and> lookup fs' = (lookup fs)(d \<mapsto> File m t c)
       \<and> clock fs' = clock fs \<and> umask fs' = umask fs"
proof -
  have nd: "\<not> fs_isdir fs d"
    using assms(5) by (simp add: fs_isdir_def)
  obtain g where ow: "open_w fs d = (None, g)" and lg: "\<forall>q. q \<noteq> d \<longrightarrow> lookup g q = lookup fs q"
    and cg: "clock g = clock fs" "umask g = umask fs"
  proof (cases "lookup fs d")
    case None
    then have "open_w fs d = (None, put fs d (File (new_mode fs 438) (clock fs) []))"
      using assms(3,6) by (simp add: open_w_def)
    then show ?thesis
      using that by (simp add: lookup_put put_fields)
  next
    case (Some n)
    with assms(5) obtain m' t' c' where "n = File m' t' c'"
      by (cases n) simp_all
    with Some have "open_w fs d = (None, put fs d (File m' (clock fs) []))"
      using assms(3) by (simp add: open_w_def)
    then show ?thesis
      using that by (simp add: lookup_put put_fields)
  qed
  have "copy2 fs s d = (None, put g d (File m t c))"
    using assms(1,2,3,4) nd ow by (simp add: copy2_def)
  moreover have "lookup (put g d (File m t c)) = (lookup fs)(d \<mapsto> File m t c)"
    using lg by (auto simp: lookup_put_fun fun_eq_iff)
  ultimately show ?thesis
    using cg by (simp add: put_fields)
qed

lemma copystat_dirs:
  assumes "lookup fs s = Some (Dir m t)" and "is_dir_node (lookup fs d)"
    and "\<not> has_nul s" and "\<not> has_nul d"
  shows "copystat fs s d = (None, put fs d (Dir m t))"
proof -
  from assms(2) obtain m' t' where "lookup fs d = Some (Dir m' t')"
    by (cases "lookup fs d" rule: is_dir_node.cases) simp_all
  with assms(1,3,4) show ?thesis
    by (simp add: copystat_def)
qed

subsection \<open>The merged state is well formed\<close>

lemma made_well_formed:
  assumes "well_formed (lookup fs)" and "\<forall>r. prefix r dst \<longrightarrow> \<not> is_file_node (lookup fs r)"
  shows "well_formed (made fs dst)"
proof -
  have root: "is_dir_node (made fs dst [])"
    using assms(1) by (auto simp: well_formed_def made_def dest: dir_not_none)
  have par: "is_dir_node (made fs dst (butlast q))" if a: "made fs dst q \<noteq> None" "q \<noteq> []" for q
  proof (cases "lookup fs (butlast q) = None")
    case True
    have "lookup fs q = None"
    proof (rule ccontr)
      assume "lookup fs q \<noteq> None"
      from wfl_parent[OF assms(1) this a(2)] True show False by simp
    qed
    with a(1) have "prefix q dst"
      by (simp add: made_def split: if_splits)
    then have "prefix (butlast q) dst"
      using prefix_order.trans[OF prefixeq_butlast] by blast
    with True show ?thesis by (simp add: made_def)
  next
    case False
    have "is_dir_node (lookup fs (butlast q))"
    proof (cases "lookup fs q = None")
      case True
      with a(1) have "prefix q dst"
        by (simp add: made_def split: if_splits)
      then have "prefix (butlast q) dst"
        using prefix_order.trans[OF prefixeq_butlast] by blast
      with assms(2) have "\<not> is_file_node (lookup fs (butlast q))" by simp
      with False show ?thesis by (rule not_file_is_dir)
    next
      case False
      from wfl_parent[OF assms(1) False a(2)] show ?thesis .
    qed
    with False show ?thesis by (simp add: made_def)
  qed
  show ?thesis
    unfolding well_formed_def using root par by blast
qed

lemma made_nul_free:
  assumes "\<forall>q. lookup fs q \<noteq> None \<longrightarrow> \<not> has_nul q" and "\<not> has_nul dst"
  shows "\<forall>q. made fs dst q \<noteq> None \<longrightarrow> \<not> has_nul q"
proof (intro allI impI)
  fix q assume a: "made fs dst q \<noteq> None"
  show "\<not> has_nul q"
  proof (cases "lookup fs q = None")
    case True
    with a have "prefix q dst"
      by (simp add: made_def split: if_splits)
    then obtain z where "dst = q @ z"
      by (auto simp: prefix_def)
    with assms(2) show ?thesis
      by (simp add: has_nul_append)
  next
    case False
    with assms(1) show ?thesis by simp
  qed
qed

lemma made_exists: "made fs dst dst \<noteq> None"
  by (simp add: made_def)

lemma made_dst_dir:
  assumes "\<forall>r. prefix r dst \<longrightarrow> \<not> is_file_node (lookup fs r)"
  shows "prefix r dst \<Longrightarrow> is_dir_node (made fs dst r)"
proof -
  assume p: "prefix r dst"
  show ?thesis
  proof (cases "lookup fs r = None")
    case True
    with p show ?thesis by (simp add: made_def)
  next
    case False
    moreover have "\<not> is_file_node (lookup fs r)"
      using assms p by simp
    ultimately have "is_dir_node (lookup fs r)"
      by (rule not_file_is_dir)
    with False show ?thesis by (simp add: made_def)
  qed
qed

lemma merged_well_formed:
  assumes "mergeable (lookup fs) src dst n"
  shows "well_formed (merged fs src dst)"
proof -
  let ?look = "lookup fs"
  have wf: "well_formed ?look"
    and nf: "\<forall>r. prefix r dst \<longrightarrow> \<not> is_file_node (?look r)"
    and sd: "is_dir_node (?look src)"
    and dis: "\<not> prefix dst src"
    and cf: "\<forall>r. is_file_node (?look (src @ r)) \<longrightarrow> \<not> is_dir_node (?look (dst @ r))"
    using assms by (simp_all add: mergeable_def)
  have dne: "dst \<noteq> []"
    using dis by auto
  have mwf: "well_formed (made fs dst)"
    using made_well_formed[OF wf nf] .
  have root: "is_dir_node (merged fs src dst [])"
    using mwf dne by (simp add: merged_def well_formed_def)
  have par: "is_dir_node (merged fs src dst (butlast q))"
    if a: "merged fs src dst q \<noteq> None" "q \<noteq> []" for q
  proof (cases "prefix dst q \<and> ?look (src @ drop (length dst) q) \<noteq> None")
    case True
    then obtain r where q: "q = dst @ r" and e: "?look (src @ r) \<noteq> None"
      by (auto simp: prefix_def)
    show ?thesis
    proof (cases "r = []")
      case True
      with q have "butlast q = butlast dst" by simp
      moreover have "\<not> prefix dst (butlast dst)"
        using dne by (metis prefix_length_le length_butlast diff_less length_greater_0_conv
            less_numeral_extra(1) not_le)
      moreover have "is_dir_node (made fs dst (butlast dst))"
        using wfl_parent[OF mwf made_exists dne] .
      ultimately show ?thesis by (simp add: merged_def)
    next
      case False
      then have b: "butlast q = dst @ butlast r" "butlast (src @ r) = src @ butlast r"
        using q by (simp_all add: butlast_append)
      have "src @ r \<noteq> []"
        using False by simp
      from wfl_parent[OF wf e this] have d: "is_dir_node (?look (src @ butlast r))"
        using b by simp
      then have "?look (src @ butlast r) \<noteq> None"
        by (rule dir_not_none)
      with d b show ?thesis by (simp add: merged_def)
    qed
  next
    case False
    with a(1) have "made fs dst q \<noteq> None"
      by (simp add: merged_def split: if_splits)
    from wfl_parent[OF mwf this a(2)] have md: "is_dir_node (made fs dst (butlast q))" .
    show ?thesis
    proof (cases "prefix dst (butlast q) \<and> ?look (src @ drop (length dst) (butlast q)) \<noteq> None")
      case False
      with md show ?thesis by (simp add: merged_def split: if_splits)
    next
      case True
      then obtain r' where p: "butlast q = dst @ r'" and e: "?look (src @ r') \<noteq> None"
        by (auto simp: prefix_def)
      have "\<not> is_file_node (?look (src @ r'))"
      proof
        assume f: "is_file_node (?look (src @ r'))"
        with cf have nd: "\<not> is_dir_node (?look (dst @ r'))" by simp
        have "r' \<noteq> []"
          using f sd by (cases "?look src" rule: is_dir_node.cases) auto
        then have "\<not> prefix (dst @ r') dst"
          by (simp add: prefix_def)
        with md p have "is_dir_node (?look (dst @ r'))"
          by (simp add: made_def)
        with nd show False by simp
      qed
      with e have "is_dir_node (?look (src @ r'))"
        by (rule not_file_is_dir)
      with p e show ?thesis by (simp add: merged_def)
    qed
  qed
  show ?thesis
    unfolding well_formed_def using root par by blast
qed

lemma merged_nul_free:
  assumes "mergeable (lookup fs) src dst n"
  shows "\<forall>q. merged fs src dst q \<noteq> None \<longrightarrow> \<not> has_nul q"
proof (intro allI impI)
  fix q assume a: "merged fs src dst q \<noteq> None"
  have nfr: "\<forall>q. lookup fs q \<noteq> None \<longrightarrow> \<not> has_nul q" and nd: "\<not> has_nul dst"
    using assms by (simp_all add: mergeable_def)
  show "\<not> has_nul q"
  proof (cases "prefix dst q \<and> lookup fs (src @ drop (length dst) q) \<noteq> None")
    case True
    then obtain r where q: "q = dst @ r" and e: "lookup fs (src @ r) \<noteq> None"
      by (auto simp: prefix_def)
    from nfr e have "\<not> has_nul (src @ r)" by simp
    with nd q show ?thesis by (simp add: has_nul_append)
  next
    case False
    with a have "made fs dst q \<noteq> None"
      by (simp add: merged_def split: if_splits)
    with made_nul_free[OF nfr nd] show ?thesis by simp
  qed
qed

subsection \<open>The loop over the children\<close>

lemma prefix_comparable: "prefix a c \<Longrightarrow> prefix b c \<Longrightarrow> prefix a b \<or> prefix b a"
  by (metis prefix_same_cases)

lemma not_under_dst:
  assumes "\<not> prefix src dst" and "\<not> prefix dst src"
  shows "\<not> prefix dst (src @ r)" and "\<not> prefix (src @ r) dst"
proof -
  show "\<not> prefix dst (src @ r)"
  proof
    assume "prefix dst (src @ r)"
    moreover have "prefix src (src @ r)" by simp
    ultimately have "prefix dst src \<or> prefix src dst"
      by (rule prefix_comparable)
    with assms show False by simp
  qed
  show "\<not> prefix (src @ r) dst"
    using assms(1) by (metis append_prefixD)
qed

lemma names_src:
  assumes "\<not> prefix src dst" and "\<not> prefix dst src"
  shows "merged_names fs src dst S (src @ r) = lookup fs (src @ r)"
proof -
  have "\<not> prefix (dst @ [x]) (src @ r)" for x
    using not_under_dst(1)[OF assms, of r] by (metis append_prefixD)
  then show ?thesis
    using not_under_dst(2)[OF assms, of r] by (simp add: merged_names_def made_def)
qed

lemma names_child: "x \<notin> S \<Longrightarrow> merged_names fs src dst S (dst @ x # r) = lookup fs (dst @ x # r)"
  by (auto simp: merged_names_def made_def)

lemma names_prefix: "prefix r dst \<Longrightarrow> merged_names fs src dst S r = made fs dst r"
proof -
  assume p: "prefix r dst"
  have "\<not> prefix (dst @ [x]) r" for x
  proof
    assume "prefix (dst @ [x]) r"
    with p have "prefix (dst @ [x]) dst"
      by (rule prefix_order.trans[rotated])
    then show False by simp
  qed
  then show ?thesis by (simp add: merged_names_def)
qed

lemma names_empty: "merged_names fs src dst {} = made fs dst"
  by (rule ext) (simp add: merged_names_def)

lemma step_mergeable:
  assumes H: "mergeable (lookup fs) src dst (Suc n)"
    and g: "lookup g = merged_names fs src dst S"
    and wg: "well_formed (lookup g)" and ng: "\<forall>q. lookup g q \<noteq> None \<longrightarrow> \<not> has_nul q"
    and x: "x \<notin> S" and d: "is_dir_node (lookup fs (src @ [x]))"
  shows "mergeable (lookup g) (src @ [x]) (dst @ [x]) n"
proof -
  let ?look = "lookup fs"
  have nfr: "\<forall>q. ?look q \<noteq> None \<longrightarrow> \<not> has_nul q" and nd: "\<not> has_nul dst"
    and dis: "\<not> prefix src dst" "\<not> prefix dst src"
    and nf: "\<forall>r. prefix r dst \<longrightarrow> \<not> is_file_node (?look r)"
    and cd: "\<forall>r. is_dir_node (?look (src @ r)) \<longrightarrow> \<not> is_file_node (?look (dst @ r))"
    and cf: "\<forall>r. is_file_node (?look (src @ r)) \<longrightarrow> \<not> is_dir_node (?look (dst @ r))"
    and fu: "\<forall>r. ?look (src @ r) \<noteq> None \<longrightarrow> length r < Suc n"
    using H by (simp_all add: mergeable_def)
  have gs: "lookup g (src @ r) = ?look (src @ r)" for r
    using names_src[OF dis] g by simp
  have gc: "lookup g (dst @ x # r) = ?look (dst @ x # r)" for r
    using names_child[OF x] g by simp
  have "\<not> has_nul (src @ [x])"
    using nfr dir_not_none[OF d] by blast
  with nd have a3: "\<not> has_nul (dst @ [x])"
    by (simp add: has_nul_append)
  have a4: "is_dir_node (lookup g (src @ [x]))"
    using gs[of "[x]"] d by simp
  have a5: "\<not> prefix (src @ [x]) (dst @ [x])" "\<not> prefix (dst @ [x]) (src @ [x])"
    using dis by (auto dest: append_prefixD)
  have a6: "\<forall>r. prefix r (dst @ [x]) \<longrightarrow> \<not> is_file_node (lookup g r)"
  proof (intro allI impI)
    fix r assume "prefix r (dst @ [x])"
    then consider "r = dst @ [x]" | "prefix r dst"
      by auto
    then show "\<not> is_file_node (lookup g r)"
    proof cases
      case 1
      with gc[of "[]"] cd d show ?thesis by simp
    next
      case 2
      have "is_dir_node (lookup g r)"
        using names_prefix[OF 2] g made_dst_dir[OF nf 2] by simp
      then show ?thesis
        by (cases "lookup g r" rule: is_dir_node.cases) simp_all
    qed
  qed
  have a7: "\<forall>r. is_dir_node (lookup g ((src @ [x]) @ r)) \<longrightarrow>
      \<not> is_file_node (lookup g ((dst @ [x]) @ r))"
    using gs gc cd by simp
  have a8: "\<forall>r. is_file_node (lookup g ((src @ [x]) @ r)) \<longrightarrow>
      \<not> is_dir_node (lookup g ((dst @ [x]) @ r))"
    using gs gc cf by simp
  have a9: "\<forall>r. lookup g ((src @ [x]) @ r) \<noteq> None \<longrightarrow> length r < n"
  proof (intro allI impI)
    fix r assume "lookup g ((src @ [x]) @ r) \<noteq> None"
    then have "?look (src @ x # r) \<noteq> None"
      using gs[of "x # r"] by simp
    with fu have "length (x # r) < Suc n" by blast
    then show "length r < n" by simp
  qed
  show ?thesis
    unfolding mergeable_def using wg ng a3 a4 a5 a6 a7 a8 a9 by blast
qed

lemma step_dir_result:
  assumes H: "mergeable (lookup fs) src dst (Suc n)"
    and g: "lookup g = merged_names fs src dst S"
    and x: "x \<notin> S" and d: "is_dir_node (lookup fs (src @ [x]))"
  shows "merged g (src @ [x]) (dst @ [x]) = merged_names fs src dst (insert x S)"
proof (rule ext)
  fix q
  let ?look = "lookup fs"
  have dis: "\<not> prefix src dst" "\<not> prefix dst src"
    and nf: "\<forall>r. prefix r dst \<longrightarrow> \<not> is_file_node (?look r)"
    using H by (simp_all add: mergeable_def)
  have gs: "lookup g (src @ r) = ?look (src @ r)" for r
    using names_src[OF dis] g by simp
  show "merged g (src @ [x]) (dst @ [x]) q = merged_names fs src dst (insert x S) q"
  proof (cases "prefix (dst @ [x]) q")
    case True
    then obtain r where q: "q = dst @ x # r"
      by (auto simp: prefix_def)
    have e: "(src @ [x]) @ drop (length (dst @ [x])) q = src @ x # r"
      "src @ drop (length dst) q = src @ x # r"
      using q by simp_all
    show ?thesis
    proof (cases "?look (src @ x # r) = None")
      case False
      then show ?thesis
        using True e gs[of "x # r"] by (simp add: merged_def merged_names_def)
    next
      case n: True
      have "r \<noteq> []"
        using n d by (auto dest: dir_not_none)
      then have "\<not> prefix q (dst @ [x])"
        using q by (simp add: prefix_def)
      then have "merged g (src @ [x]) (dst @ [x]) q = lookup g q"
        using True e n gs[of "x # r"] by (simp add: merged_def made_def)
      also have "\<dots> = made fs dst q"
        using g e n by (simp add: merged_names_def)
      also have "\<dots> = merged_names fs src dst (insert x S) q"
        using e n by (simp add: merged_names_def)
      finally show ?thesis .
    qed
  next
    case False
    have "merged g (src @ [x]) (dst @ [x]) q = made g (dst @ [x]) q"
      using False by (simp add: merged_def)
    also have "\<dots> = lookup g q"
    proof (cases "prefix q (dst @ [x])")
      case True
      with False have p: "prefix q dst"
        by auto
      have "is_dir_node (lookup g q)"
        using names_prefix[OF p] g made_dst_dir[OF nf p] by simp
      then have "lookup g q \<noteq> None"
        by (rule dir_not_none)
      then show ?thesis by (simp add: made_def)
    next
      case False
      then show ?thesis by (simp add: made_def)
    qed
    also have "\<dots> = merged_names fs src dst (insert x S) q"
      using g False by (simp add: merged_names_def)
    finally show ?thesis .
  qed
qed

lemma step_file_result:
  assumes H: "mergeable (lookup fs) src dst (Suc n)"
    and g: "lookup g = merged_names fs src dst S"
    and x: "x \<notin> S" and f: "lookup fs (src @ [x]) = Some (File m t c)"
  shows "(lookup g)(dst @ [x] \<mapsto> File m t c) = merged_names fs src dst (insert x S)"
proof (rule ext)
  fix q
  let ?look = "lookup fs"
  have wf: "well_formed ?look"
    using H by (simp add: mergeable_def)
  show "((lookup g)(dst @ [x] \<mapsto> File m t c)) q = merged_names fs src dst (insert x S) q"
  proof (cases "prefix (dst @ [x]) q")
    case True
    then obtain r where q: "q = dst @ x # r"
      by (auto simp: prefix_def)
    have e: "src @ drop (length dst) q = src @ x # r"
      using q by simp
    show ?thesis
    proof (cases "r = []")
      case True
      with q f e show ?thesis
        by (simp add: merged_names_def)
    next
      case False
      have n: "?look (src @ x # r) = None"
      proof (rule ccontr)
        assume a: "?look (src @ x # r) \<noteq> None"
        have "is_dir_node (?look (src @ [x]))"
          using wfl_below_dir[OF wf, of "src @ [x]" r] a False by simp
        with f show False by simp
      qed
      have "q \<noteq> dst @ [x]"
        using q False by simp
      then have "((lookup g)(dst @ [x] \<mapsto> File m t c)) q = lookup g q"
        by simp
      also have "\<dots> = made fs dst q"
        using g e n by (simp add: merged_names_def)
      also have "\<dots> = merged_names fs src dst (insert x S) q"
        using e n by (simp add: merged_names_def)
      finally show ?thesis .
    qed
  next
    case False
    then have "q \<noteq> dst @ [x]"
      by auto
    then show ?thesis
      using g False by (simp add: merged_names_def)
  qed
qed

lemma finish_result:
  assumes H: "mergeable (lookup fs) src dst n"
    and s: "lookup fs src = Some (Dir m t)"
    and S: "S = {x. lookup fs (src @ [x]) \<noteq> None}"
  shows "(merged_names fs src dst S)(dst \<mapsto> Dir m t) = merged fs src dst"
proof (rule ext)
  fix q
  let ?look = "lookup fs"
  have wf: "well_formed ?look"
    using H by (simp add: mergeable_def)
  show "((merged_names fs src dst S)(dst \<mapsto> Dir m t)) q = merged fs src dst q"
  proof (cases "q = dst")
    case True
    with s show ?thesis by (simp add: merged_def)
  next
    case False
    show ?thesis
    proof (cases "prefix dst q \<and> ?look (src @ drop (length dst) q) \<noteq> None")
      case True
      then obtain zs where z: "q = dst @ zs" and ez: "?look (src @ zs) \<noteq> None"
        by (auto simp: prefix_def)
      with False have "zs \<noteq> []"
        by auto
      then obtain x r where "zs = x # r"
        by (cases zs) auto
      with z ez have q: "q = dst @ x # r" and e: "?look (src @ x # r) \<noteq> None"
        by simp_all
      have "?look (src @ [x]) \<noteq> None"
        using wfl_prefix_exists[OF wf e, of "src @ [x]"] by simp
      then have "x \<in> S"
        using S by simp
      then have "\<exists>y \<in> S. prefix (dst @ [y]) q"
        using q by auto
      with False True show ?thesis
        by (simp add: merged_def merged_names_def)
    next
      case n: False
      have nn: "\<not> ((\<exists>y \<in> S. prefix (dst @ [y]) q) \<and> ?look (src @ drop (length dst) q) \<noteq> None)"
        using n by (auto dest: append_prefixD)
      have a: "merged_names fs src dst S q = made fs dst q"
        unfolding merged_names_def by (rule if_not_P) (rule nn)
      have b: "merged fs src dst q = made fs dst q"
        unfolding merged_def by (rule if_not_P) (rule n)
      have "((merged_names fs src dst S)(dst \<mapsto> Dir m t)) q = merged_names fs src dst S q"
        using False by simp
      with a b show ?thesis by simp
    qed
  qed
qed

subsection \<open>The recursive copy\<close>

lemma copytree_merges:
  "mergeable (lookup fs) src dst n \<Longrightarrow>
   \<exists>fs'. copytree n fs src dst = (None, fs') \<and> lookup fs' = merged fs src dst
     \<and> clock fs' = clock fs \<and> umask fs' = umask fs"
proof (induction n arbitrary: fs src dst)
  case 0
  then have "is_dir_node (lookup fs src)" and "\<forall>r. lookup fs (src @ r) \<noteq> None \<longrightarrow> length r < 0"
    by (simp_all add: mergeable_def)
  then have "lookup fs (src @ []) = None"
    by blast
  with \<open>is_dir_node (lookup fs src)\<close> show ?case
    by simp
next
  case (Suc n)
  note H = Suc.prems
  let ?look = "lookup fs"
  have wf: "well_formed ?look"
    and nfr: "\<forall>q. ?look q \<noteq> None \<longrightarrow> \<not> has_nul q" and nd: "\<not> has_nul dst"
    and sd: "is_dir_node (?look src)"
    and dis: "\<not> prefix src dst" "\<not> prefix dst src"
    and nf: "\<forall>r. prefix r dst \<longrightarrow> \<not> is_file_node (?look r)"
    and cf: "\<forall>r. is_file_node (?look (src @ r)) \<longrightarrow> \<not> is_dir_node (?look (dst @ r))"
    using H by (simp_all add: mergeable_def)
  from sd obtain m t where s: "?look src = Some (Dir m t)"
    by (cases "?look src" rule: is_dir_node.cases) simp_all
  have ns: "\<not> has_nul src"
    using nfr s by simp
  have ld: "fs_listdir fs src = Inr (children fs src)"
    using listdir_dir[OF ns sd] .
  from os_makedirs_creates[OF wf nd nf] obtain fs1 where
    mk: "os_makedirs fs dst = (None, fs1)" and l1: "lookup fs1 = made fs dst"
    and c1: "clock fs1 = clock fs" "umask fs1 = umask fs"
    by blast
  have loop: "distinct xs \<Longrightarrow> set xs \<inter> S = {} \<Longrightarrow> \<forall>x \<in> set xs. ?look (src @ [x]) \<noteq> None \<Longrightarrow>
      lookup g = merged_names fs src dst S \<Longrightarrow> well_formed (lookup g) \<Longrightarrow>
      \<forall>q. lookup g q \<noteq> None \<longrightarrow> \<not> has_nul q \<Longrightarrow> clock g = clock fs \<Longrightarrow> umask g = umask fs \<Longrightarrow>
      \<exists>g'. copy_entries n g src dst xs [] = (Inr [], g')
        \<and> lookup g' = merged_names fs src dst (S \<union> set xs)
        \<and> clock g' = clock fs \<and> umask g' = umask fs" for xs S g
  proof (induction xs arbitrary: S g)
    case Nil
    then show ?case by simp
  next
    case (Cons x xs)
    let ?sx = "src @ [x]" and ?dx = "dst @ [x]"
    note g = Cons.prems(4) and wg = Cons.prems(5) and ng = Cons.prems(6)
    have x: "x \<notin> S" and xs: "x \<notin> set xs" "distinct xs"
      using Cons.prems(1,2) by auto
    have ex: "?look ?sx \<noteq> None"
      using Cons.prems(3) by simp
    have nsx: "\<not> has_nul ?sx"
      using nfr ex by blast
    then have ndx: "\<not> has_nul ?dx"
      using nd by (simp add: has_nul_append)
    have gsx: "lookup g ?sx = ?look ?sx"
      using names_src[OF dis, of fs S "[x]"] g by simp
    have gdx: "lookup g ?dx = ?look ?dx"
      using names_child[OF x, of fs src dst "[]"] g by simp
    have gd: "is_dir_node (lookup g dst)"
      using names_prefix[of dst dst fs src S] g made_dst_dir[OF nf, of dst] by simp
    have rest: "set xs \<inter> insert x S = {}" "\<forall>y \<in> set xs. ?look (src @ [y]) \<noteq> None"
      using Cons.prems(2,3) xs(1) by auto
    have fin: "insert x S \<union> set xs = S \<union> set (x # xs)"
      by auto
    show ?case
    proof (cases "is_dir_node (?look ?sx)")
      case d: True
      have mg: "mergeable (lookup g) ?sx ?dx n"
        using step_mergeable[OF H g wg ng x d] .
      from Suc.IH[OF mg] obtain g1 where
        ct: "copytree n g ?sx ?dx = (None, g1)" and lg1: "lookup g1 = merged g ?sx ?dx"
        and cg1: "clock g1 = clock g" "umask g1 = umask g"
        by blast
      have l1': "lookup g1 = merged_names fs src dst (insert x S)"
        using lg1 step_dir_result[OF H g x d] by simp
      have w1: "well_formed (lookup g1)"
        using merged_well_formed[OF mg] lg1 by simp
      have n1: "\<forall>q. lookup g1 q \<noteq> None \<longrightarrow> \<not> has_nul q"
        using merged_nul_free[OF mg] lg1 by simp
      have isd: "fs_isdir g ?sx"
        using nsx gsx d by (simp add: fs_isdir_def)
      have unf: "copy_entries n g src dst (x # xs) [] = copy_entries n g1 src dst xs []"
        using isd ct by simp
      from Cons.IH[OF xs(2) rest l1' w1 n1] cg1 Cons.prems(7,8) obtain g' where
        "copy_entries n g1 src dst xs [] = (Inr [], g')"
        "lookup g' = merged_names fs src dst (insert x S \<union> set xs)"
        "clock g' = clock fs" "umask g' = umask fs"
        by auto
      with unf fin show ?thesis by simp
    next
      case nd': False
      have "is_file_node (?look ?sx)"
        using ex nd' by (cases "?look ?sx" rule: is_file_node.cases) simp_all
      then obtain m' t' c' where f: "?look ?sx = Some (File m' t' c')"
        by (cases "?look ?sx" rule: is_file_node.cases) simp_all
      have ndd: "\<not> is_dir_node (lookup g ?dx)"
        using cf f gdx by (metis is_file_node.simps(1))
      have neq: "?sx \<noteq> ?dx"
        using dis by auto
      have par: "is_dir_node (lookup g (butlast ?dx))"
        using gd by simp
      from copy2_file[OF _ nsx ndx neq ndd par, of m' t' c'] f gsx obtain g1 where
        c2: "copy2 g ?sx ?dx = (None, g1)"
        and lg1: "lookup g1 = (lookup g)(?dx \<mapsto> File m' t' c')"
        and cg1: "clock g1 = clock g" "umask g1 = umask g"
        by auto
      have l1': "lookup g1 = merged_names fs src dst (insert x S)"
        using lg1 step_file_result[OF H g x f] by simp
      have w1: "well_formed (lookup g1)"
        unfolding lg1 using well_formed_update[OF wg _ par, of "File m' t' c'"] ndd by simp
      have n1: "\<forall>q. lookup g1 q \<noteq> None \<longrightarrow> \<not> has_nul q"
        unfolding lg1 using ng ndx by simp
      have isd: "\<not> fs_isdir g ?sx"
        using gsx f by (simp add: fs_isdir_def)
      have unf: "copy_entries n g src dst (x # xs) [] = copy_entries n g1 src dst xs []"
        using isd c2 by simp
      from Cons.IH[OF xs(2) rest l1' w1 n1] cg1 Cons.prems(7,8) obtain g' where
        "copy_entries n g1 src dst xs [] = (Inr [], g')"
        "lookup g' = merged_names fs src dst (insert x S \<union> set xs)"
        "clock g' = clock fs" "umask g' = umask fs"
        by auto
      with unf fin show ?thesis by simp
    qed
  qed
  have w1: "well_formed (lookup fs1)"
    using made_well_formed[OF wf nf] l1 by simp
  have n1: "\<forall>q. lookup fs1 q \<noteq> None \<longrightarrow> \<not> has_nul q"
    using made_nul_free[OF nfr nd] l1 by simp
  have e1: "lookup fs1 = merged_names fs src dst {}"
    using l1 names_empty by simp
  have all: "\<forall>x \<in> set (children fs src). ?look (src @ [x]) \<noteq> None"
    by (simp add: children_iff)
  from loop[OF children_distinct _ all e1 w1 n1 c1] obtain g2 where
    ce: "copy_entries n fs1 src dst (children fs src) [] = (Inr [], g2)"
    and l2: "lookup g2 = merged_names fs src dst ({} \<union> set (children fs src))"
    and c2: "clock g2 = clock fs" "umask g2 = umask fs"
    by auto
  have S: "{} \<union> set (children fs src) = {x. ?look (src @ [x]) \<noteq> None}"
    by (auto simp: children_iff)
  have g2s: "lookup g2 src = Some (Dir m t)"
    using names_src[OF dis, of fs _ "[]"] l2 s by simp
  have g2d: "is_dir_node (lookup g2 dst)"
    using names_prefix[of dst dst fs src] l2 made_dst_dir[OF nf, of dst] by simp
  have cs: "copystat g2 src dst = (None, put g2 dst (Dir m t))"
    using copystat_dirs[OF g2s g2d ns nd] .
  have ct: "copytree (Suc n) fs src dst = (None, put g2 dst (Dir m t))"
    using ld mk ce cs by simp
  have "lookup (put g2 dst (Dir m t)) = merged fs src dst"
    using finish_result[OF H s S[symmetric, THEN sym]] l2 S by (simp add: lookup_put_fun)
  with ct c2 show ?case
    by (simp add: put_fields)
qed

end
